theory Spec2Isabelle
  imports Main
begin

section \<open>Python values used by the table renderer\<close>

text \<open>
  A Python \<open>str\<close> is a sequence of Unicode code points, and \<open>len\<close> counts code points.
  The box-drawing glyphs of the renderer lie outside ASCII, so a string is modelled as the
  list of its code points (natural numbers), not as a list of 8-bit characters. The
  lists are unbounded: the limits of memory and of the size of a container
  (\<open>sys.maxsize\<close>) are not part of the model.
\<close>

type_synonym codepoint = nat
type_synonym pystr = "codepoint list"

text \<open>The exceptions the renderer can raise: a list index out of range, a missing
  dictionary key, \<open>max\<close> of an empty sequence, and a true division whose quotient is
  beyond the range of the floats.\<close>

datatype py_error = IndexError | KeyError | ValueError | OverflowError

definition bindE :: "'e + 'a \<Rightarrow> ('a \<Rightarrow> 'e + 'b) \<Rightarrow> 'e + 'b" where
  "bindE m f = (case m of Inl e \<Rightarrow> Inl e | Inr v \<Rightarrow> f v)"

text \<open>A list comprehension whose element expression may raise: the first exception
  ends the evaluation.\<close>

fun mapE :: "('a \<Rightarrow> 'e + 'b) \<Rightarrow> 'a list \<Rightarrow> 'e + 'b list" where
  "mapE f [] = Inr []"
| "mapE f (x # xs) = bindE (f x) (\<lambda>y. bindE (mapE f xs) (\<lambda>ys. Inr (y # ys)))"

definition newline :: codepoint where
  "newline = 10"

definition space :: codepoint where
  "space = 32"

definition len :: "'a list \<Rightarrow> int" where
  "len xs = int (length xs)"

text \<open>\<open>xs[i]\<close> for an index \<open>i \<ge> 0\<close>.\<close>

definition getitem :: "'a list \<Rightarrow> nat \<Rightarrow> py_error + 'a" where
  "getitem xs i = (if i < length xs then Inr (xs ! i) else Inl IndexError)"

text \<open>\<open>d[k]\<close> for a dictionary with string keys.\<close>

definition lookup :: "(string \<rightharpoonup> pystr) \<Rightarrow> string \<Rightarrow> py_error + pystr" where
  "lookup d k = (case d k of None \<Rightarrow> Inl KeyError | Some v \<Rightarrow> Inr v)"

text \<open>\<open>max\<close> of a finite sequence of integers; Python raises \<open>ValueError\<close> on an empty one.\<close>

fun py_max :: "int list \<Rightarrow> py_error + int" where
  "py_max [] = Inl ValueError"
| "py_max (x # xs) = Inr (fold max xs x)"

text \<open>\<open>s * n\<close>: the string repeated \<open>n\<close> times, empty when \<open>n \<le> 0\<close>.\<close>

definition str_mul :: "pystr \<Rightarrow> int \<Rightarrow> pystr" where
  "str_mul s n = concat (replicate (nat n) s)"

text \<open>\<open>s.rjust(width, fill)\<close> and \<open>s.ljust(width, fill)\<close>: the string is returned unchanged
  when \<open>width \<le> len(s)\<close> (truncating subtraction on \<open>nat\<close> gives no fill then).\<close>

definition rjust :: "pystr \<Rightarrow> int \<Rightarrow> codepoint \<Rightarrow> pystr" where
  "rjust s width fill = replicate (nat (width - len s)) fill @ s"

definition ljust :: "pystr \<Rightarrow> int \<Rightarrow> codepoint \<Rightarrow> pystr" where
  "ljust s width fill = s @ replicate (nat (width - len s)) fill"

text \<open>
  \<open>s.center(width, fill)\<close> as CPython computes it: with \<open>marg = width - len(s)\<close>, the left
  fill is \<open>marg // 2 + (marg & width & 1)\<close> and the right fill is the rest. So
  \<open>'ab'.center(5)\<close> is \<open>'  ab '\<close> and \<open>'a'.center(4)\<close> is \<open>' a  '\<close>.
\<close>

definition center :: "pystr \<Rightarrow> int \<Rightarrow> codepoint \<Rightarrow> pystr" where
  "center s width fill =
     (if width \<le> len s then s
      else let marg = width - len s;
               left = marg div 2 + (if odd marg \<and> odd width then 1 else 0)
           in replicate (nat left) fill @ s @ replicate (nat (marg - left)) fill)"

text \<open>\<open>s.replace(old, new)\<close>: every non-overlapping occurrence of \<open>old\<close>, scanning from the
  left; an empty \<open>old\<close> matches before every character and at the end.\<close>

fun replace_ne :: "pystr \<Rightarrow> pystr \<Rightarrow> pystr \<Rightarrow> pystr" where
  "replace_ne [] old new = []"
| "replace_ne (c # cs) old new =
     (if take (length old) (c # cs) = old
      then new @ replace_ne (drop (length old - 1) cs) old new
      else c # replace_ne cs old new)"

definition replace :: "pystr \<Rightarrow> pystr \<Rightarrow> pystr \<Rightarrow> pystr" where
  "replace s old new =
     (if old = [] then new @ concat (map (\<lambda>c. c # new) s) else replace_ne s old new)"

text \<open>\<open>s.split('\n')\<close>, used to read the lines of a rendered table.\<close>

fun split :: "codepoint \<Rightarrow> pystr \<Rightarrow> pystr list" where
  "split sep [] = [[]]"
| "split sep (c # cs) =
     (if c = sep then [] # split sep cs
      else (case split sep cs of [] \<Rightarrow> [[c]] | l # ls \<Rightarrow> (c # l) # ls))"

text \<open>\<open>n.bit_length()\<close> of a non-negative integer.\<close>

fun bit_length :: "nat \<Rightarrow> nat" where
  "bit_length n = (if n = 0 then 0 else Suc (bit_length (n div 2)))"

declare bit_length.simps [simp del]

text \<open>
  \<open>int(n / 2)\<close> for an integer \<open>n\<close>. The true division \<open>n / 2\<close> is the quotient correctly
  rounded to a binary64 float (53 significant bits, ties to the even significand), and
  raises \<open>OverflowError\<close> when the rounded value is beyond the largest float, that is
  when \<open>\<bar>n\<bar> \<ge> 2^1025 - 2^971\<close>; \<open>int\<close> then truncates towards zero. For \<open>\<bar>n\<bar> < 2^53\<close>
  the quotient is exact. Above, with \<open>s = bit_length \<bar>n\<bar> - 53\<close>, the 53-bit significand is
  \<open>\<bar>n\<bar> div 2^s\<close> rounded by the remainder, and the float is that times \<open>2^(s-1)\<close>: so
  \<open>int((2^53 + 3) / 2)\<close> is \<open>2^52 + 2\<close>.
\<close>

definition int_half :: "int \<Rightarrow> py_error + int" where
  "int_half n =
     (let a = nat \<bar>n\<bar> in
      if a < 2 ^ 53 then Inr (sgn n * int (a div 2))
      else if 2 ^ 1025 - 2 ^ 971 \<le> a then Inl OverflowError
      else let s = bit_length a - 53;
               q = a div 2 ^ s;
               rem = a mod 2 ^ s;
               r = (if 2 ^ (s - 1) < rem \<or> (rem = 2 ^ (s - 1) \<and> odd q) then q + 1 else q)
           in Inr (sgn n * int (r * 2 ^ (s - 1))))"

section \<open>The renderer\<close>

subsection \<open>paddedWord\<close>

definition paddedWord :: "pystr \<Rightarrow> int \<Rightarrow> bool \<Rightarrow> int \<Rightarrow> py_error + pystr" where
  "paddedWord word max_length centered extra_spaces =
     (let total_length = max_length + extra_spaces in
      if centered then Inr (center word total_length space)
      else bindE (int_half extra_spaces) (\<lambda>half.
           let word' = rjust word (min (half + len word) total_length) space
           in Inr (ljust word' total_length space)))"

subsection \<open>Border lines\<close>

fun firstLine_loop ::
  "(string \<rightharpoonup> pystr) \<Rightarrow> int \<Rightarrow> int list \<Rightarrow> pystr \<Rightarrow> py_error + pystr" where
  "firstLine_loop border extra_spaces [] line = Inr line"
| "firstLine_loop border extra_spaces (col_length # rest) line =
     bindE (lookup border ''h'') (\<lambda>h.
     bindE (lookup border ''tc'') (\<lambda>tc.
       firstLine_loop border extra_spaces rest
         (line @ str_mul h (col_length + extra_spaces) @ tc)))"

definition firstLine :: "int list \<Rightarrow> (string \<rightharpoonup> pystr) \<Rightarrow> int \<Rightarrow> py_error + pystr" where
  "firstLine col_lengths border extra_spaces =
     (if length col_lengths < 1 then Inr []
      else bindE (lookup border ''tl'') (\<lambda>tl.
           bindE (firstLine_loop border extra_spaces col_lengths tl) (\<lambda>line.
           bindE (lookup border ''tr'') (\<lambda>tr.
             Inr (butlast line @ tr)))))"

definition headerBotLine :: "int list \<Rightarrow> (string \<rightharpoonup> pystr) \<Rightarrow> int \<Rightarrow> py_error + pystr" where
  "headerBotLine col_lengths border extra_spaces =
     bindE (firstLine col_lengths border extra_spaces) (\<lambda>line0.
     bindE (lookup border ''tl'') (\<lambda>tl. bindE (lookup border ''ml'') (\<lambda>ml.
     bindE (lookup border ''tc'') (\<lambda>tc. bindE (lookup border ''mc'') (\<lambda>mc.
     bindE (lookup border ''tr'') (\<lambda>tr. bindE (lookup border ''mr'') (\<lambda>mr.
       Inr (replace (replace (replace line0 tl ml) tc mc) tr mr))))))))"

definition lastLine :: "int list \<Rightarrow> (string \<rightharpoonup> pystr) \<Rightarrow> int \<Rightarrow> py_error + pystr" where
  "lastLine col_lengths border extra_spaces =
     bindE (firstLine col_lengths border extra_spaces) (\<lambda>line0.
     bindE (lookup border ''tl'') (\<lambda>tl. bindE (lookup border ''bl'') (\<lambda>bl.
     bindE (lookup border ''tc'') (\<lambda>tc. bindE (lookup border ''bc'') (\<lambda>bc.
     bindE (lookup border ''tr'') (\<lambda>tr. bindE (lookup border ''br'') (\<lambda>br.
       Inr (replace (replace (replace line0 tl bl) tc bc) tr br))))))))"

subsection \<open>Content lines\<close>

fun wordsLine_loop ::
  "(string \<rightharpoonup> pystr) \<Rightarrow> pystr list \<Rightarrow> bool \<Rightarrow> int \<Rightarrow> nat \<Rightarrow> int list \<Rightarrow> pystr
     \<Rightarrow> py_error + pystr" where
  "wordsLine_loop border words centered extra_spaces i [] line = Inr line"
| "wordsLine_loop border words centered extra_spaces i (col_length # rest) line =
     bindE (getitem words i) (\<lambda>word.
     bindE (paddedWord word col_length centered extra_spaces) (\<lambda>padded.
     bindE (lookup border ''v'') (\<lambda>v.
       wordsLine_loop border words centered extra_spaces (Suc i) rest
         ((line @ padded) @ v))))"

definition wordsLine ::
  "int list \<Rightarrow> (string \<rightharpoonup> pystr) \<Rightarrow> pystr list \<Rightarrow> bool \<Rightarrow> int \<Rightarrow> py_error + pystr" where
  "wordsLine col_lengths border words centered extra_spaces =
     (if length col_lengths < 1 then Inr []
      else bindE (lookup border ''v'') (\<lambda>v.
             wordsLine_loop border words centered extra_spaces 0 col_lengths v))"

text \<open>The cells are arbitrary objects rendered by \<open>str\<close>; the rendering function is a
  parameter of every function that applies it.\<close>

definition createHeaderLines ::
  "('a \<Rightarrow> pystr) \<Rightarrow> 'a list \<Rightarrow> int list \<Rightarrow> (string \<rightharpoonup> pystr) \<Rightarrow> bool \<Rightarrow> int
     \<Rightarrow> py_error + pystr" where
  "createHeaderLines str labels col_lengths border centered extra_spaces =
     (let words = map str labels in
      bindE (wordsLine col_lengths border words centered extra_spaces) (\<lambda>wl.
      bindE (headerBotLine col_lengths border extra_spaces) (\<lambda>hb.
        Inr ((wl @ [newline]) @ (hb @ [newline])))))"

fun createWordsLines_loop ::
  "('a \<Rightarrow> pystr) \<Rightarrow> int list \<Rightarrow> (string \<rightharpoonup> pystr) \<Rightarrow> bool \<Rightarrow> int \<Rightarrow> 'a list list \<Rightarrow> pystr
     \<Rightarrow> py_error + pystr" where
  "createWordsLines_loop str col_lengths border centered extra_spaces [] lines = Inr lines"
| "createWordsLines_loop str col_lengths border centered extra_spaces (row # rest) lines =
     (let words = map str row in
      bindE (wordsLine col_lengths border words centered extra_spaces) (\<lambda>wl.
        createWordsLines_loop str col_lengths border centered extra_spaces rest
          ((lines @ wl) @ [newline])))"

definition createWordsLines ::
  "('a \<Rightarrow> pystr) \<Rightarrow> 'a list list \<Rightarrow> int list \<Rightarrow> (string \<rightharpoonup> pystr) \<Rightarrow> bool \<Rightarrow> int
     \<Rightarrow> py_error + pystr" where
  "createWordsLines str wordsTable col_lengths border centered extra_spaces =
     createWordsLines_loop str col_lengths border centered extra_spaces wordsTable []"

subsection \<open>make_table\<close>

definition border :: "string \<rightharpoonup> pystr" where
  "border = map_of
     [(''h'', [9472]), (''v'', [9474]),
      (''tl'', [9484]), (''tc'', [9516]), (''tr'', [9488]),
      (''ml'', [9500]), (''mc'', [9532]), (''mr'', [9508]),
      (''bl'', [9492]), (''bc'', [9524]), (''br'', [9496])]"

text \<open>The column widths \<open>COL_LENGTHS\<close> that \<open>make_table\<close> computes before it draws.\<close>

definition make_table_col_lengths ::
  "('a \<Rightarrow> pystr) \<Rightarrow> 'a list list \<Rightarrow> 'a list option \<Rightarrow> py_error + int list" where
  "make_table_col_lengths str rows labels =
     bindE (getitem rows 0) (\<lambda>row0.
     let max_columns = length row0 in
     bindE (mapE (\<lambda>i. bindE (mapE (\<lambda>row. bindE (getitem row i) (\<lambda>cell. Inr (len (str cell))))
                                 rows) py_max)
                 [0..<max_columns]) (\<lambda>col_lengths.
     let labels_length = (case labels of
                            Some ls \<Rightarrow> map (\<lambda>l. len (str l)) ls
                          | None \<Rightarrow> replicate max_columns 0) in
     mapE (\<lambda>i. bindE (getitem col_lengths i) (\<lambda>a.
                bindE (getitem labels_length i) (\<lambda>b. Inr (max a b))))
          [0..<max_columns]))"

definition make_table ::
  "('a \<Rightarrow> pystr) \<Rightarrow> 'a list list \<Rightarrow> 'a list option \<Rightarrow> bool \<Rightarrow> py_error + pystr" where
  "make_table str rows labels centered =
     (let extra_spaces = 2 in
      bindE (make_table_col_lengths str rows labels) (\<lambda>col_lengths.
      bindE (firstLine col_lengths border extra_spaces) (\<lambda>top.
      let table0 = top @ [newline] in
      bindE (case labels of
               None \<Rightarrow> Inr table0
             | Some ls \<Rightarrow>
                 if length ls > 0
                 then bindE (createHeaderLines str ls col_lengths border centered extra_spaces)
                        (\<lambda>header. Inr (table0 @ header))
                 else Inr table0) (\<lambda>table1.
      bindE (createWordsLines str rows col_lengths border centered extra_spaces) (\<lambda>body.
      bindE (lastLine col_lengths border extra_spaces) (\<lambda>bottom.
        Inr ((table1 @ body) @ bottom)))))))"

section \<open>Input contract and the lines of a table\<close>

text \<open>
  The documented contract of \<open>make_table\<close>: the rows are non-empty and all of the length of
  the first row, every cell (and label) has a single-line rendering, and the labels, when
  given, are as many as the columns.
\<close>

definition rectangular :: "'a list list \<Rightarrow> bool" where
  "rectangular rows \<longleftrightarrow> rows \<noteq> [] \<and> (\<forall>row\<in>set rows. length row = length (hd rows))"

definition single_line :: "('a \<Rightarrow> pystr) \<Rightarrow> 'a list \<Rightarrow> bool" where
  "single_line str xs \<longleftrightarrow> (\<forall>x\<in>set xs. newline \<notin> set (str x))"

definition labels_match :: "('a \<Rightarrow> pystr) \<Rightarrow> 'a list list \<Rightarrow> 'a list option \<Rightarrow> bool" where
  "labels_match str rows labels \<longleftrightarrow>
     (case labels of
        None \<Rightarrow> True
      | Some ls \<Rightarrow> length ls = length (hd rows) \<and> single_line str ls)"

definition valid_input :: "('a \<Rightarrow> pystr) \<Rightarrow> 'a list list \<Rightarrow> 'a list option \<Rightarrow> bool" where
  "valid_input str rows labels \<longleftrightarrow>
     rectangular rows \<and> (\<forall>row\<in>set rows. single_line str row) \<and> labels_match str rows labels"

text \<open>The header is drawn when labels are given and non-empty.\<close>

definition has_header :: "'a list option \<Rightarrow> bool" where
  "has_header labels = (case labels of None \<Rightarrow> False | Some ls \<Rightarrow> length ls > 0)"

text \<open>The widths of the contract: the longest rendering in the column, label included.\<close>

definition col_width :: "('a \<Rightarrow> pystr) \<Rightarrow> 'a list list \<Rightarrow> nat \<Rightarrow> int" where
  "col_width str rows i = Max ((\<lambda>row. len (str (row ! i))) ` set rows)"

definition label_width :: "('a \<Rightarrow> pystr) \<Rightarrow> 'a list option \<Rightarrow> nat \<Rightarrow> int" where
  "label_width str labels i = (case labels of None \<Rightarrow> 0 | Some ls \<Rightarrow> len (str (ls ! i)))"

definition widths :: "('a \<Rightarrow> pystr) \<Rightarrow> 'a list list \<Rightarrow> 'a list option \<Rightarrow> int list" where
  "widths str rows labels =
     map (\<lambda>i. max (col_width str rows i) (label_width str labels i)) [0..<length (hd rows)]"

text \<open>The characters between the left corner and the end of a border line; a word
  padded with the two extra spaces that \<open>make_table\<close> passes; and the characters between
  the first bar and the end of a content line.\<close>

definition hbody :: "int \<Rightarrow> int list \<Rightarrow> pystr" where
  "hbody es cl = concat (map (\<lambda>c. replicate (nat (c + es)) 9472 @ [9516]) cl)"

definition pad2 :: "pystr \<Rightarrow> int \<Rightarrow> bool \<Rightarrow> pystr" where
  "pad2 w c centered =
     (if centered then center w (c + 2) space
      else ljust (rjust w (min (1 + len w) (c + 2)) space) (c + 2) space)"

definition cells :: "bool \<Rightarrow> int list \<Rightarrow> pystr list \<Rightarrow> pystr" where
  "cells centered cl ws =
     concat (map (\<lambda>(c, w). pad2 w c centered @ [9474]) (zip cl ws))"

text \<open>The length of every line of a table with the column widths \<open>cl\<close>.\<close>

definition line_width :: "int \<Rightarrow> int list \<Rightarrow> nat" where
  "line_width es cl = (if cl = [] then 0 else 1 + (\<Sum>c\<leftarrow>cl. nat (c + es) + 1))"

text \<open>
  The lines that \<open>make_table\<close> emits, in order, computed with the renderer's own line
  functions: the lines above the bottom border, and the bottom border.
\<close>

definition header_lines ::
  "('a \<Rightarrow> pystr) \<Rightarrow> 'a list option \<Rightarrow> int list \<Rightarrow> bool \<Rightarrow> py_error + pystr list" where
  "header_lines str labels cl centered =
     (case labels of
        None \<Rightarrow> Inr []
      | Some ls \<Rightarrow>
          if length ls > 0
          then bindE (wordsLine cl border (map str ls) centered 2) (\<lambda>hl.
               bindE (headerBotLine cl border 2) (\<lambda>hb. Inr [hl, hb]))
          else Inr [])"

definition emitted_lines ::
  "('a \<Rightarrow> pystr) \<Rightarrow> 'a list list \<Rightarrow> 'a list option \<Rightarrow> bool \<Rightarrow> py_error + pystr list \<times> pystr" where
  "emitted_lines str rows labels centered =
     bindE (make_table_col_lengths str rows labels) (\<lambda>cl.
     bindE (firstLine cl border 2) (\<lambda>top.
     bindE (header_lines str labels cl centered) (\<lambda>hdr.
     bindE (mapE (\<lambda>row. wordsLine cl border (map str row) centered 2) rows) (\<lambda>body.
     bindE (lastLine cl border 2) (\<lambda>bottom.
       Inr (top # hdr @ body, bottom))))))"

text \<open>Each upper line followed by a newline, then the bottom line with nothing after it.\<close>

definition join_lines :: "pystr list \<times> pystr \<Rightarrow> pystr" where
  "join_lines lb = concat (map (\<lambda>l. l @ [newline]) (fst lb)) @ snd lb"

text \<open>ASCII text as a Python string.\<close>

definition ascii :: "string \<Rightarrow> pystr" where
  "ascii s = map of_char s"

section \<open>Basic facts\<close>

lemma bindE_Inr: "bindE (Inr v) f = f v"
  by (simp add: bindE_def)

lemma bindE_Inl: "bindE (Inl e) f = Inl e"
  by (simp add: bindE_def)

lemma mapE_pure: "(\<And>x. x \<in> set xs \<Longrightarrow> f x = Inr (g x)) \<Longrightarrow> mapE f xs = Inr (map g xs)"
  by (induction xs) (simp_all add: bindE_Inr)

lemma lookup_border:
  "lookup border ''h'' = Inr [9472]" "lookup border ''v'' = Inr [9474]"
  "lookup border ''tl'' = Inr [9484]" "lookup border ''tc'' = Inr [9516]"
  "lookup border ''tr'' = Inr [9488]" "lookup border ''ml'' = Inr [9500]"
  "lookup border ''mc'' = Inr [9532]" "lookup border ''mr'' = Inr [9508]"
  "lookup border ''bl'' = Inr [9492]" "lookup border ''bc'' = Inr [9524]"
  "lookup border ''br'' = Inr [9496]"
  by (simp_all add: lookup_def border_def)

lemma str_mul_single: "str_mul [c] n = replicate (nat n) c"
  by (simp add: str_mul_def)

lemma replace_ne_single:
  "replace_ne s [a] [b] = map (\<lambda>c. if c = a then b else c) s"
  by (induction s) simp_all

lemma replace_single: "replace s [a] [b] = map (\<lambda>c. if c = a then b else c) s"
  by (simp add: replace_def replace_ne_single)

lemma firstLine_loop_border:
  "firstLine_loop border es cl line =
     Inr (line @ concat (map (\<lambda>c. replicate (nat (c + es)) 9472 @ [9516]) cl))"
  by (induction cl arbitrary: line) (simp_all add: lookup_border bindE_Inr str_mul_single)

lemma py_max_Cons: "py_max (x # xs) = Inr (Max (set (x # xs)))"
  using Max.set_eq_fold [of x xs] by simp

lemma split_no_sep: "sep \<notin> set s \<Longrightarrow> split sep s = [s]"
  by (induction s) auto

lemma split_append_sep:
  "sep \<notin> set s \<Longrightarrow> split sep (s @ sep # rest) = s # split sep rest"
  by (induction s) auto

lemma split_lines:
  "(\<And>l. l \<in> set ls \<Longrightarrow> sep \<notin> set l) \<Longrightarrow> sep \<notin> set b \<Longrightarrow>
   split sep (concat (map (\<lambda>l. l @ [sep]) ls) @ b) = ls @ [b]"
  by (induction ls) (simp_all add: split_no_sep split_append_sep)

lemma hbody_Nil: "hbody es [] = []"
  by (simp add: hbody_def)

lemma hbody_snoc: "hbody es (cl @ [c]) = hbody es cl @ replicate (nat (c + es)) 9472 @ [9516]"
  by (simp add: hbody_def)

lemma length_hbody: "length (hbody es cl) = (\<Sum>c\<leftarrow>cl. nat (c + es) + 1)"
  by (induction cl) (simp_all add: hbody_def)

lemma set_hbody: "set (hbody es cl) \<subseteq> {9472, 9516}"
  by (induction cl) (auto simp: hbody_def)

lemma hbody_nonempty: "cl \<noteq> [] \<Longrightarrow> hbody es cl \<noteq> []"
  by (cases cl) (simp_all add: hbody_def)

lemma firstLine_border:
  "firstLine cl border es =
     Inr (if cl = [] then [] else butlast (9484 # hbody es cl) @ [9488])"
  by (simp add: firstLine_def firstLine_loop_border lookup_border bindE_Inr hbody_def
        del: firstLine_loop.simps)

lemma firstLine_border_length:
  assumes "firstLine cl border es = Inr l"
  shows "length l = (if cl = [] then 0 else 1 + (\<Sum>c\<leftarrow>cl. nat (c + es) + 1))"
proof (cases "cl = []")
  case True
  with assms show ?thesis by (simp add: firstLine_border)
next
  case False
  then have "0 < length (hbody es cl)"
    using hbody_nonempty [of cl es] by simp
  then have "0 < (\<Sum>c\<leftarrow>cl. nat (c + es) + 1)"
    by (simp only: length_hbody)
  with assms False hbody_nonempty [OF False, of es] show ?thesis
    by (auto simp: firstLine_border length_hbody)
qed

lemma firstLine_border_set:
  "firstLine cl border es = Inr l \<Longrightarrow> set l \<subseteq> {9472, 9516, 9484, 9488}"
  using set_hbody [of es cl]
  by (auto simp: firstLine_border split: if_splits dest!: in_set_butlastD)

lemma headerBotLine_border:
  "headerBotLine cl border es =
     map_sum id (map (\<lambda>c. if c = 9488 then 9508 else c) \<circ> map (\<lambda>c. if c = 9516 then 9532 else c)
                 \<circ> map (\<lambda>c. if c = 9484 then 9500 else c)) (firstLine cl border es)"
  by (simp add: headerBotLine_def firstLine_border lookup_border bindE_Inr replace_single)

lemma lastLine_border:
  "lastLine cl border es =
     map_sum id (map (\<lambda>c. if c = 9488 then 9496 else c) \<circ> map (\<lambda>c. if c = 9516 then 9524 else c)
                 \<circ> map (\<lambda>c. if c = 9484 then 9492 else c)) (firstLine cl border es)"
  by (simp add: lastLine_def firstLine_border lookup_border bindE_Inr replace_single)

lemma headerBotLine_border_ex:
  "\<exists>l. headerBotLine cl border es = Inr l \<and>
       length l = (if cl = [] then 0 else 1 + (\<Sum>c\<leftarrow>cl. nat (c + es) + 1)) \<and> newline \<notin> set l"
proof -
  obtain l0 where l0: "firstLine cl border es = Inr l0"
    by (simp add: firstLine_border)
  from firstLine_border_set [OF l0] have "newline \<notin> set l0"
    by (auto simp: newline_def)
  then show ?thesis
    using firstLine_border_length [OF l0] firstLine_border_set [OF l0]
    by (auto simp: headerBotLine_border l0 newline_def)
qed

lemma lastLine_border_ex:
  "\<exists>l. lastLine cl border es = Inr l \<and>
       length l = (if cl = [] then 0 else 1 + (\<Sum>c\<leftarrow>cl. nat (c + es) + 1)) \<and> newline \<notin> set l"
proof -
  obtain l0 where l0: "firstLine cl border es = Inr l0"
    by (simp add: firstLine_border)
  from firstLine_border_set [OF l0] have "newline \<notin> set l0"
    by (auto simp: newline_def)
  then show ?thesis
    using firstLine_border_length [OF l0] firstLine_border_set [OF l0]
    by (auto simp: lastLine_border l0 newline_def)
qed

lemma firstLine_border_ex:
  "\<exists>l. firstLine cl border es = Inr l \<and>
       length l = (if cl = [] then 0 else 1 + (\<Sum>c\<leftarrow>cl. nat (c + es) + 1)) \<and> newline \<notin> set l"
proof -
  obtain l0 where l0: "firstLine cl border es = Inr l0"
    by (simp add: firstLine_border)
  from firstLine_border_set [OF l0] have "newline \<notin> set l0"
    by (auto simp: newline_def)
  then show ?thesis
    using firstLine_border_length [OF l0] l0 by simp
qed

lemma length_center: "len s \<le> width \<Longrightarrow> length (center s width fill) = nat width"
  by (auto simp: center_def len_def Let_def)

lemma set_center: "set (center s width fill) \<subseteq> insert fill (set s)"
  by (auto simp: center_def Let_def)

lemma length_rjust: "length (rjust s width fill) = nat (max width (len s))"
  by (auto simp: rjust_def len_def)

lemma length_ljust: "length (ljust s width fill) = nat (max width (len s))"
  by (auto simp: ljust_def len_def)

lemma set_rjust: "set (rjust s width fill) \<subseteq> insert fill (set s)"
  by (auto simp: rjust_def)

lemma set_ljust: "set (ljust s width fill) \<subseteq> insert fill (set s)"
  by (auto simp: ljust_def)

lemma int_half_exact:
  "\<bar>n\<bar> < 2 ^ 53 \<Longrightarrow> int_half n = Inr (if 0 \<le> n then n div 2 else - ((- n) div 2))"
proof -
  assume b: "\<bar>n\<bar> < 2 ^ 53"
  then have "nat \<bar>n\<bar> < 2 ^ 53"
    by (simp add: nat_less_iff)
  moreover have "int (nat \<bar>n\<bar> div 2) = \<bar>n\<bar> div 2"
    by (simp add: zdiv_int)
  ultimately show ?thesis
    by (simp add: int_half_def Let_def sgn_if)
qed

lemma int_half_2: "int_half 2 = Inr 1"
  using int_half_exact [of 2] by simp

lemma paddedWord_2: "paddedWord w c centered 2 = Inr (pad2 w c centered)"
  by (simp add: paddedWord_def pad2_def int_half_2 bindE_Inr Let_def)

lemma length_pad2:
  "len w \<le> c + 2 \<Longrightarrow> length (pad2 w c centered) = nat (c + 2)"
  by (auto simp: pad2_def length_center length_ljust length_rjust len_def)

lemma set_pad2: "set (pad2 w c centered) \<subseteq> insert space (set w)"
  using set_center [of w "c + 2" space]
    set_ljust [of "rjust w (min (1 + len w) (c + 2)) space" "c + 2" space]
    set_rjust [of w "min (1 + len w) (c + 2)" space]
  by (auto simp: pad2_def)

lemma wordsLine_loop_border:
  "i + length cl \<le> length words \<Longrightarrow>
   wordsLine_loop border words centered 2 i cl line =
     Inr (line @ cells centered cl (drop i words))"
proof (induction cl arbitrary: i line)
  case Nil
  then show ?case by (simp add: cells_def)
next
  case (Cons c cl)
  then have i: "i < length words" and rest: "Suc i + length cl \<le> length words"
    by simp_all
  from i have d: "drop i words = words ! i # drop (Suc i) words"
    by (simp add: Cons_nth_drop_Suc)
  show ?case
    using Cons.IH [OF rest] i
    by (simp add: getitem_def lookup_border paddedWord_2 bindE_Inr d cells_def)
qed

lemma wordsLine_border:
  "length cl \<le> length words \<Longrightarrow>
   wordsLine cl border words centered 2 =
     Inr (if cl = [] then [] else 9474 # cells centered cl words)"
  by (simp add: wordsLine_def lookup_border bindE_Inr wordsLine_loop_border
        del: wordsLine_loop.simps)

lemma wordsLine_Nil: "wordsLine [] b words centered es = Inr []"
  by (simp add: wordsLine_def)

lemma firstLine_Nil: "firstLine [] b es = Inr []"
  by (simp add: firstLine_def)

lemma length_cells:
  "length cl = length ws \<Longrightarrow> (\<And>c w. (c, w) \<in> set (zip cl ws) \<Longrightarrow> len w \<le> c + 2) \<Longrightarrow>
   length (cells centered cl ws) = (\<Sum>c\<leftarrow>cl. nat (c + 2) + 1)"
proof (induction cl ws rule: list_induct2)
  case Nil
  then show ?case by (simp add: cells_def)
next
  case (Cons c cl w ws)
  have "len w \<le> c + 2" using Cons.prems [of c w] by simp
  moreover have "length (cells centered cl ws) = (\<Sum>c\<leftarrow>cl. nat (c + 2) + 1)"
    using Cons.IH Cons.prems by simp
  ultimately show ?case
    by (simp add: cells_def length_pad2)
qed

lemma set_cells:
  "set (cells centered cl ws) \<subseteq> {9474, space} \<union> \<Union> (set ` set ws)"
proof (induction cl arbitrary: ws)
  case Nil
  then show ?case by (simp add: cells_def)
next
  case (Cons c cl)
  show ?case
  proof (cases ws)
    case Nil
    then show ?thesis by (simp add: cells_def)
  next
    case (Cons w ws')
    have "cells centered (c # cl) ws = pad2 w c centered @ [9474] @ cells centered cl ws'"
      using Cons by (simp add: cells_def)
    then show ?thesis
      using Cons.IH [of ws'] set_pad2 [of w c centered] Cons
      by auto
  qed
qed

lemma getitem_in: "i < length xs \<Longrightarrow> getitem xs i = Inr (xs ! i)"
  by (simp add: getitem_def)

lemma getitem_out: "length xs \<le> i \<Longrightarrow> getitem xs i = Inl IndexError"
  by (simp add: getitem_def)

lemma column_max:
  assumes "rows \<noteq> []" and "\<And>row. row \<in> set rows \<Longrightarrow> i < length row"
  shows "bindE (mapE (\<lambda>row. bindE (getitem row i) (\<lambda>cell. Inr (len (str cell)))) rows) py_max
           = Inr (col_width str rows i)"
proof -
  have "mapE (\<lambda>row. bindE (getitem row i) (\<lambda>cell. Inr (len (str cell)))) rows
          = Inr (map (\<lambda>row. len (str (row ! i))) rows)"
    by (rule mapE_pure) (simp add: assms(2) getitem_in bindE_Inr)
  moreover obtain r rs where "rows = r # rs"
    using assms(1) by (cases rows) auto
  ultimately show ?thesis
    using py_max_Cons [of "len (str (r ! i))" "map (\<lambda>row. len (str (row ! i))) rs"]
    by (simp add: bindE_Inr col_width_def del: py_max.simps)
qed

lemma col_lengths_rows:
  assumes "rows \<noteq> []" and "\<And>row. row \<in> set rows \<Longrightarrow> length (hd rows) \<le> length row"
  shows "mapE (\<lambda>i. bindE (mapE (\<lambda>row. bindE (getitem row i) (\<lambda>cell. Inr (len (str cell)))) rows)
                 py_max) [0..<length (hd rows)]
           = Inr (map (col_width str rows) [0..<length (hd rows)])"
proof (rule mapE_pure)
  fix i assume "i \<in> set [0..<length (hd rows)]"
  then have "\<And>row. row \<in> set rows \<Longrightarrow> i < length row"
    using assms(2) by fastforce
  then show "bindE (mapE (\<lambda>row. bindE (getitem row i) (\<lambda>cell. Inr (len (str cell)))) rows) py_max
               = Inr (col_width str rows i)"
    by (rule column_max [OF assms(1)])
qed

lemma make_table_col_lengths_ok:
  assumes "rows \<noteq> []" and "\<And>row. row \<in> set rows \<Longrightarrow> length (hd rows) \<le> length row"
    and "\<And>ls. labels = Some ls \<Longrightarrow> length (hd rows) \<le> length ls"
  shows "make_table_col_lengths str rows labels = Inr (widths str rows labels)"
proof -
  let ?n = "length (hd rows)"
  let ?ll = "case labels of Some ls \<Rightarrow> map (\<lambda>l. len (str l)) ls | None \<Rightarrow> replicate ?n 0"
  have g: "getitem rows 0 = Inr (hd rows)"
    using assms(1) by (simp add: getitem_def hd_conv_nth)
  have ll: "getitem ?ll i = Inr (label_width str labels i)" if "i < ?n" for i
    using that assms(3) by (cases labels) (auto simp: getitem_def label_width_def)
  have "mapE (\<lambda>i. bindE (getitem (map (col_width str rows) [0..<?n]) i) (\<lambda>a.
                   bindE (getitem ?ll i) (\<lambda>b. Inr (max a b)))) [0..<?n]
          = Inr (map (\<lambda>i. max (col_width str rows i) (label_width str labels i)) [0..<?n])"
    by (rule mapE_pure) (simp add: getitem_in ll bindE_Inr)
  then show ?thesis
    by (simp add: make_table_col_lengths_def g bindE_Inr Let_def
          col_lengths_rows [OF assms(1,2)] widths_def)
qed

lemma length_widths: "length (widths str rows labels) = length (hd rows)"
  by (simp add: widths_def)

lemma col_width_ge:
  "row \<in> set rows \<Longrightarrow> len (str (row ! i)) \<le> col_width str rows i"
  by (simp add: col_width_def)

lemma widths_ge_cell:
  "row \<in> set rows \<Longrightarrow> i < length (hd rows) \<Longrightarrow> len (str (row ! i)) \<le> widths str rows labels ! i"
  using col_width_ge [of row rows str i] by (simp add: widths_def)

lemma widths_ge_label:
  "i < length (hd rows) \<Longrightarrow> len (str (ls ! i)) \<le> widths str rows (Some ls) ! i"
  by (simp add: widths_def label_width_def)

lemma createWordsLines_loop_mapE:
  "createWordsLines_loop str cl b centered es rows lines =
     bindE (mapE (\<lambda>row. wordsLine cl b (map str row) centered es) rows)
       (\<lambda>body. Inr (lines @ concat (map (\<lambda>l. l @ [newline]) body)))"
proof (induction rows arbitrary: lines)
  case Nil
  then show ?case by (simp add: bindE_Inr)
next
  case (Cons row rows)
  show ?case
  proof (cases "wordsLine cl b (map str row) centered es")
    case (Inl e)
    then show ?thesis by (simp add: bindE_Inl)
  next
    case (Inr wl)
    show ?thesis
    proof (cases "mapE (\<lambda>row. wordsLine cl b (map str row) centered es) rows")
      case (Inl e)
      then show ?thesis using Inr Cons.IH by (simp add: bindE_Inl bindE_Inr)
    next
      case (Inr body)
      then show ?thesis using \<open>wordsLine cl b (map str row) centered es = Inr wl\<close> Cons.IH
        by (simp add: bindE_Inr)
    qed
  qed
qed

lemma make_table_emitted:
  "make_table str rows labels centered =
     map_sum id join_lines (emitted_lines str rows labels centered)"
proof (cases "make_table_col_lengths str rows labels")
  case (Inl e)
  then show ?thesis by (simp add: make_table_def emitted_lines_def bindE_Inl)
next
  case cl: (Inr cl)
  show ?thesis
  proof (cases "firstLine cl border 2")
    case (Inl e)
    then show ?thesis using cl by (simp add: make_table_def emitted_lines_def bindE_Inl bindE_Inr)
  next
    case top: (Inr top)
    show ?thesis
    proof (cases "header_lines str labels cl centered")
      case (Inl e)
      then have "\<exists>ls. labels = Some ls \<and> length ls > 0"
        by (auto simp: header_lines_def split: option.splits if_splits)
      then show ?thesis using cl top Inl
        by (auto simp: make_table_def emitted_lines_def header_lines_def createHeaderLines_def
              bindE_def split: sum.splits)
    next
      case hdr: (Inr hdr)
      have t1: "(case labels of
               None \<Rightarrow> Inr (top @ [newline])
             | Some ls \<Rightarrow>
                 if length ls > 0
                 then bindE (createHeaderLines str ls cl border centered 2)
                        (\<lambda>header. Inr ((top @ [newline]) @ header))
                 else Inr (top @ [newline]))
             = Inr (concat (map (\<lambda>l. l @ [newline]) (top # hdr)))"
        using hdr
        by (auto simp: header_lines_def createHeaderLines_def bindE_def
              split: option.splits if_splits sum.splits)
      show ?thesis
      proof (cases "mapE (\<lambda>row. wordsLine cl border (map str row) centered 2) rows")
        case (Inl e)
        then show ?thesis using cl top hdr t1
          by (simp add: make_table_def emitted_lines_def bindE_Inl bindE_Inr
                createWordsLines_def createWordsLines_loop_mapE)
      next
        case body: (Inr body)
        show ?thesis
        proof (cases "lastLine cl border 2")
          case (Inl e)
          then show ?thesis using cl top hdr t1 body
            by (simp add: make_table_def emitted_lines_def bindE_Inl bindE_Inr
                  createWordsLines_def createWordsLines_loop_mapE)
        next
          case (Inr bottom)
          then show ?thesis using cl top hdr t1 body
            by (simp add: make_table_def emitted_lines_def bindE_Inl bindE_Inr
                  createWordsLines_def createWordsLines_loop_mapE join_lines_def)
        qed
      qed
    qed
  qed
qed

lemma mapE_ex:
  "(\<And>x. x \<in> set xs \<Longrightarrow> \<exists>y. f x = Inr y \<and> P y) \<Longrightarrow>
   \<exists>ys. mapE f xs = Inr ys \<and> length ys = length xs \<and> (\<forall>y\<in>set ys. P y)"
proof (induction xs)
  case Nil
  then show ?case by simp
next
  case (Cons x xs)
  obtain y where y: "f x = Inr y" "P y"
    using Cons.prems [of x] by auto
  obtain ys where ys: "mapE f xs = Inr ys" "length ys = length xs" "\<forall>y\<in>set ys. P y"
    using Cons.IH Cons.prems by auto
  show ?case using y ys by (simp add: bindE_Inr)
qed

lemma wordsLine_ok:
  assumes len: "length ws = length cl"
    and fit: "\<And>i. i < length cl \<Longrightarrow> len (ws ! i) \<le> cl ! i + 2"
    and nl: "\<And>w. w \<in> set ws \<Longrightarrow> newline \<notin> set w"
  shows "\<exists>l. wordsLine cl border ws centered 2 = Inr l \<and> length l = line_width 2 cl
             \<and> newline \<notin> set l"
proof -
  have "len w \<le> c + 2" if "(c, w) \<in> set (zip cl ws)" for c w
    using that fit by (auto simp: in_set_zip)
  then have l: "length (cells centered cl ws) = (\<Sum>c\<leftarrow>cl. nat (c + 2) + 1)"
    using length_cells [of cl ws centered] len by simp
  have "newline \<notin> set (cells centered cl ws)"
    using set_cells [of centered cl ws] nl by (auto simp: newline_def space_def)
  then show ?thesis
    using l len by (simp add: wordsLine_border line_width_def newline_def)
qed

lemma emitted_lines_valid:
  assumes "valid_input str rows labels"
  shows "\<exists>upper bottom.
           emitted_lines str rows labels centered = Inr (upper, bottom) \<and>
           length upper = length rows + 1 + (if has_header labels then 2 else 0) \<and>
           (\<forall>l\<in>set upper. length l = line_width 2 (widths str rows labels) \<and> newline \<notin> set l) \<and>
           length bottom = line_width 2 (widths str rows labels) \<and> newline \<notin> set bottom"
proof -
  let ?cl = "widths str rows labels"
  let ?W = "line_width 2 ?cl"
  let ?P = "\<lambda>l. length l = ?W \<and> newline \<notin> set l"
  from assms have r: "rectangular rows" and sl: "\<forall>row\<in>set rows. single_line str row"
    and lm: "labels_match str rows labels"
    by (simp_all add: valid_input_def)
  from r have ne: "rows \<noteq> []"
    by (simp add: rectangular_def)
  from r have rect: "length row = length (hd rows)" if "row \<in> set rows" for row
    using that unfolding rectangular_def by blast
  from sl have cells_nl: "newline \<notin> set (str cell)"
    if "row \<in> set rows" "cell \<in> set row" for row cell
    using that unfolding single_line_def by blast
  from lm have lab: "length ls = length (hd rows)" if "labels = Some ls" for ls
    using that by (simp add: labels_match_def)
  from lm have lab_nl: "newline \<notin> set (str l)" if "labels = Some ls" "l \<in> set ls" for ls l
    using that by (simp add: labels_match_def single_line_def)
  have cl: "make_table_col_lengths str rows labels = Inr ?cl"
  proof (rule make_table_col_lengths_ok)
    show "rows \<noteq> []" by (rule ne)
    show "length (hd rows) \<le> length row" if "row \<in> set rows" for row
      using rect [OF that] by simp
    show "length (hd rows) \<le> length ls" if "labels = Some ls" for ls
      using lab [OF that] by simp
  qed
  obtain top where top: "firstLine ?cl border 2 = Inr top" "?P top"
    using firstLine_border_ex [of ?cl 2] by (auto simp: line_width_def)
  obtain bottom where bottom: "lastLine ?cl border 2 = Inr bottom" "?P bottom"
    using lastLine_border_ex [of ?cl 2] by (auto simp: line_width_def)
  have row_ok: "\<exists>l. wordsLine ?cl border (map str row) centered 2 = Inr l \<and> ?P l"
    if "row \<in> set rows" for row
  proof (rule wordsLine_ok)
    show "length (map str row) = length ?cl"
      using rect [OF that] by (simp add: length_widths)
    show "len (map str row ! i) \<le> ?cl ! i + 2" if "i < length ?cl" for i
      using widths_ge_cell [OF \<open>row \<in> set rows\<close>, of i str labels] that rect [OF \<open>row \<in> set rows\<close>]
      by (simp add: length_widths)
    show "newline \<notin> set w" if "w \<in> set (map str row)" for w
      using that cells_nl [OF \<open>row \<in> set rows\<close>] by auto
  qed
  obtain body where body: "mapE (\<lambda>row. wordsLine ?cl border (map str row) centered 2) rows = Inr body"
    "length body = length rows" "\<forall>l\<in>set body. ?P l"
    using mapE_ex [of rows "\<lambda>row. wordsLine ?cl border (map str row) centered 2" ?P] row_ok
    by blast
  have "\<exists>hdr. header_lines str labels ?cl centered = Inr hdr \<and>
          length hdr = (if has_header labels then 2 else 0) \<and> (\<forall>l\<in>set hdr. ?P l)"
  proof (cases "has_header labels")
    case False
    then show ?thesis
      by (auto simp: has_header_def header_lines_def split: option.splits)
  next
    case True
    then obtain ls where ls: "labels = Some ls" "length ls > 0"
      by (auto simp: has_header_def split: option.splits)
    have "\<exists>l. wordsLine ?cl border (map str ls) centered 2 = Inr l \<and> ?P l"
    proof (rule wordsLine_ok)
      show "length (map str ls) = length ?cl"
        using lab [OF ls(1)] by (simp add: length_widths)
      show "len (map str ls ! i) \<le> ?cl ! i + 2" if "i < length ?cl" for i
        using widths_ge_label [of i rows str ls] that lab [OF ls(1)] ls(1)
        by (simp add: length_widths)
      show "newline \<notin> set w" if "w \<in> set (map str ls)" for w
        using that lab_nl [OF ls(1)] by auto
    qed
    then obtain hl where hl: "wordsLine ?cl border (map str ls) centered 2 = Inr hl" "?P hl"
      by blast
    obtain hb where hb: "headerBotLine ?cl border 2 = Inr hb" "?P hb"
      using headerBotLine_border_ex [of ?cl 2] by (auto simp: line_width_def)
    show ?thesis
      using ls hl hb True by (simp add: header_lines_def bindE_Inr)
  qed
  then obtain hdr where hdr: "header_lines str labels ?cl centered = Inr hdr"
    "length hdr = (if has_header labels then 2 else 0)" "\<forall>l\<in>set hdr. ?P l"
    by blast
  have "emitted_lines str rows labels centered = Inr (top # hdr @ body, bottom)"
    by (simp add: emitted_lines_def cl top bottom hdr body bindE_Inr)
  moreover have "length (top # hdr @ body) = length rows + 1 + (if has_header labels then 2 else 0)"
    using hdr(2) body(2) by simp
  moreover have "\<forall>l\<in>set (top # hdr @ body). ?P l"
    using top(2) hdr(3) body(3) by auto
  ultimately show ?thesis
    using bottom(2) by blast
qed

section \<open>The shape of a rendered table\<close>

lemma join_split:
  assumes "\<And>l. l \<in> set upper \<Longrightarrow> newline \<notin> set l" and "newline \<notin> set bottom"
  shows "split newline (join_lines (upper, bottom)) = upper @ [bottom]"
  using split_lines [of upper newline bottom] assms by (simp add: join_lines_def)

lemma make_table_valid:
  assumes "valid_input str rows labels"
  shows "\<exists>out. make_table str rows labels centered = Inr out \<and>
           length (split newline out) = length rows + (if has_header labels then 4 else 2) \<and>
           (\<forall>l\<in>set (split newline out). length l = line_width 2 (widths str rows labels))"
proof -
  obtain upper bottom where e: "emitted_lines str rows labels centered = Inr (upper, bottom)"
    and n: "length upper = length rows + 1 + (if has_header labels then 2 else 0)"
    and u: "\<forall>l\<in>set upper. length l = line_width 2 (widths str rows labels) \<and> newline \<notin> set l"
    and b: "length bottom = line_width 2 (widths str rows labels)" "newline \<notin> set bottom"
    using emitted_lines_valid [OF assms, of centered] by blast
  have s: "split newline (join_lines (upper, bottom)) = upper @ [bottom]"
    by (rule join_split) (simp_all add: u b)
  have "make_table str rows labels centered = Inr (join_lines (upper, bottom))"
    by (simp add: make_table_emitted e)
  then show ?thesis
    using s n u b by auto
qed

lemma center_shape:
  assumes "len w \<le> width"
  shows "\<exists>l r. center w width fill = replicate l fill @ w @ replicate r fill \<and>
           int l + int r = width - len w \<and>
           (even (width - len w) \<longrightarrow> l = r) \<and>
           (odd (width - len w) \<and> even width \<longrightarrow> r = l + 1) \<and>
           (odd (width - len w) \<and> odd width \<longrightarrow> l = r + 1)"
proof (cases "width = len w")
  case True
  then have "center w width fill = replicate 0 fill @ w @ replicate 0 fill"
    by (simp add: center_def)
  then show ?thesis using True by (intro exI [of _ 0]) simp
next
  case False
  define marg where "marg = width - len w"
  define left where "left = marg div 2 + (if odd marg \<and> odd width then 1 else 0)"
  have m: "0 < marg" using assms False by (simp add: marg_def)
  have c: "center w width fill = replicate (nat left) fill @ w @ replicate (nat (marg - left)) fill"
    using assms False by (simp add: center_def Let_def marg_def left_def)
  have l0: "0 \<le> left" "left \<le> marg"
    using m by (auto simp: left_def)
  have "int (nat left) + int (nat (marg - left)) = marg"
    using l0 by simp
  moreover have "even marg \<longrightarrow> nat left = nat (marg - left)"
    using l0 by (auto simp: left_def)
  moreover have "odd marg \<and> even width \<longrightarrow> nat (marg - left) = nat left + 1"
    using l0 m by (auto simp: left_def elim!: oddE)
  moreover have "odd marg \<and> odd width \<longrightarrow> nat left = nat (marg - left) + 1"
    using l0 m by (auto simp: left_def elim!: oddE)
  ultimately show ?thesis
    unfolding c marg_def [symmetric] by blast
qed

lemma valid_col_lengths:
  assumes "valid_input str rows labels"
  shows "make_table_col_lengths str rows labels = Inr (widths str rows labels)"
proof (rule make_table_col_lengths_ok)
  from assms have r: "rectangular rows" and lm: "labels_match str rows labels"
    by (simp_all add: valid_input_def)
  show "rows \<noteq> []" using r by (simp add: rectangular_def)
  show "length (hd rows) \<le> length row" if "row \<in> set rows" for row
    using r that unfolding rectangular_def by fastforce
  show "length (hd rows) \<le> length ls" if "labels = Some ls" for ls
    using lm that by (simp add: labels_match_def)
qed

lemma col_width_nonneg: "rows \<noteq> [] \<Longrightarrow> 0 \<le> col_width str rows i"
proof -
  assume "rows \<noteq> []"
  then have "hd rows \<in> set rows" by simp
  from col_width_ge [OF this, of str i] show ?thesis
    by (simp add: len_def)
qed

lemma replicate_numeral: "replicate (numeral n) x = x # replicate (pred_numeral n) x"
  by (simp add: numeral_eq_Suc)

lemma line_width_pos: "cl \<noteq> [] \<Longrightarrow> 0 < line_width es cl"
  by (simp add: line_width_def)

lemma headerBotLine_Nil: "headerBotLine [] border es = Inr []"
  by (simp add: headerBotLine_border firstLine_Nil)

lemma lastLine_Nil: "lastLine [] border es = Inr []"
  by (simp add: lastLine_border firstLine_Nil)

lemma col_lengths_zero_columns:
  assumes "rows \<noteq> []" and "hd rows = []"
  shows "make_table_col_lengths str rows labels = Inr []"
proof -
  have "getitem rows 0 = Inr []"
    using assms by (simp add: getitem_def hd_conv_nth)
  then show ?thesis
    by (simp add: make_table_col_lengths_def bindE_Inr)
qed

lemma emitted_lines_zero_columns:
  assumes "rows \<noteq> []" and "hd rows = []"
  shows "emitted_lines str rows labels centered
           = Inr (replicate (length rows + (if has_header labels then 3 else 1)) [], [])"
proof -
  have body: "mapE (\<lambda>row. wordsLine [] border (map str row) centered 2) rows
                = Inr (map (\<lambda>row. []) rows)"
    by (rule mapE_pure) (simp add: wordsLine_Nil)
  have m: "map (\<lambda>row. []) rows = replicate (length rows) []"
    by (simp add: map_replicate_const)
  have hdr: "header_lines str labels [] centered = Inr (if has_header labels then [[], []] else [])"
    by (simp add: header_lines_def has_header_def wordsLine_Nil headerBotLine_Nil bindE_Inr
          split: option.splits)
  have "[] # (if has_header labels then [[], []] else []) @ replicate (length rows) ([]::pystr)
          = replicate (length rows + (if has_header labels then 3 else 1)) []"
    by (simp add: numeral_3_eq_3 replicate_app_Cons_same)
  then show ?thesis
    by (simp add: emitted_lines_def col_lengths_zero_columns [OF assms] firstLine_Nil
          lastLine_Nil hdr body m bindE_Inr del: replicate_Suc)
qed

lemma mapE_Inl: "mapE f xs = Inl e \<Longrightarrow> \<exists>x\<in>set xs. f x = Inl e"
  by (induction xs) (auto simp: bindE_def split: sum.splits)

lemma mapE_length: "mapE f xs = Inr ys \<Longrightarrow> length ys = length xs"
  by (induction xs arbitrary: ys) (auto simp: bindE_def split: sum.splits)

lemma column_max_error:
  assumes "rows \<noteq> []"
    and "bindE (mapE (\<lambda>row. bindE (getitem row i) (\<lambda>cell. Inr (len (str cell)))) rows) py_max
           = Inl e"
  shows "e = IndexError"
proof (cases "mapE (\<lambda>row. bindE (getitem row i) (\<lambda>cell. Inr (len (str cell)))) rows")
  case (Inl e')
  then have "e' = e" using assms(2) by (simp add: bindE_Inl)
  moreover obtain row where "bindE (getitem row i) (\<lambda>cell. Inr (len (str cell))) = Inl e'"
    using mapE_Inl [OF Inl] by blast
  ultimately show ?thesis
    by (auto simp: bindE_def getitem_def split: if_splits)
next
  case (Inr ys)
  then have "length ys = length rows" by (rule mapE_length)
  then obtain y ys' where "ys = y # ys'"
    using assms(1) by (cases ys) auto
  then show ?thesis using assms(2) Inr by (simp add: bindE_Inr)
qed

lemma col_lengths_empty_labels:
  assumes "rows \<noteq> []" and "hd rows \<noteq> []"
  shows "make_table_col_lengths str rows (Some []) = Inl IndexError"
proof -
  let ?n = "length (hd rows)"
  let ?stage1 = "mapE (\<lambda>i. bindE (mapE (\<lambda>row. bindE (getitem row i)
                     (\<lambda>cell. Inr (len (str cell)))) rows) py_max) [0..<?n]"
  have g: "getitem rows 0 = Inr (hd rows)"
    using assms(1) by (simp add: getitem_def hd_conv_nth)
  have n: "0 < ?n" using assms(2) by simp
  then have upt: "[0..<?n] = 0 # [1..<?n]"
    by (simp add: upt_conv_Cons)
  show ?thesis
  proof (cases ?stage1)
    case (Inl e)
    then obtain i where "bindE (mapE (\<lambda>row. bindE (getitem row i)
                           (\<lambda>cell. Inr (len (str cell)))) rows) py_max = Inl e"
      using mapE_Inl [OF Inl] by blast
    from column_max_error [OF assms(1) this] Inl show ?thesis
      by (simp add: make_table_col_lengths_def g bindE_Inr bindE_Inl Let_def)
  next
    case (Inr cl)
    then have "length cl = ?n"
      using mapE_length [OF Inr] by simp
    then have "getitem cl 0 = Inr (cl ! 0)"
      using n by (simp add: getitem_def)
    then have "mapE (\<lambda>i. bindE (getitem cl i) (\<lambda>a.
                 bindE (getitem (map (\<lambda>l. len (str l)) []) i) (\<lambda>b. Inr (max a b)))) [0..<?n]
               = Inl IndexError"
      unfolding upt by (simp add: bindE_Inr bindE_Inl getitem_def)
    then show ?thesis
      using Inr by (simp add: make_table_col_lengths_def g bindE_Inr Let_def)
  qed
qed


section \<open>Claims\<close>

subsection \<open>Line counts\<close>

text \<open>
  C1. For every non-empty list of equal-length rows of single-line cells, \<open>make_table\<close>
  returns a string that splits on newline into exactly (number of rows) + 2 lines when
  \<open>labels\<close> is \<open>None\<close>, and into exactly (number of rows) + 4 lines when \<open>labels\<close> is a
  non-empty list of the common row length. (With the empty label list, which matches only
  rows without columns, no header is drawn and the count is (number of rows) + 2.)
\<close>

theorem make_table_line_count:
  assumes "valid_input str rows labels"
  shows "\<exists>out. make_table str rows labels centered = Inr out \<and>
           length (split newline out) =
             (case labels of
                None \<Rightarrow> length rows + 2
              | Some ls \<Rightarrow> if ls \<noteq> [] then length rows + 4 else length rows + 2)"
  using make_table_valid [OF assms, of centered]
  by (auto simp: has_header_def split: option.splits)

text \<open>The theorem at a labelled two-by-two table: six lines.\<close>

theorem make_table_line_count_witness:
  "valid_input ascii [[''a'', ''bb''], [''ccc'', ''d'']] (Some [''X'', ''Y'']) \<and>
   (\<exists>out. make_table ascii [[''a'', ''bb''], [''ccc'', ''d'']] (Some [''X'', ''Y'']) False = Inr out \<and>
          length (split newline out) = 6)"
  using make_table_line_count [of ascii "[[''a'', ''bb''], [''ccc'', ''d'']]" "Some [''X'', ''Y'']" False]
  by (simp add: valid_input_def rectangular_def single_line_def labels_match_def ascii_def newline_def)

text \<open>
  C2 as stated, that the result has between N+1 and N+3 lines, fails: one row \<open>a\<close> under the
  label \<open>X\<close> renders as five lines (top border, header, header separator, row, bottom
  border), and five exceeds N+3 = 4.
\<close>

theorem make_table_line_range_counterexample:
  "map_sum id (length \<circ> split newline)
     (make_table ascii [[''a'']] (Some [''X'']) False) = Inr 5 \<and>
   \<not> (5::nat) \<le> length [[''a'']] + 3"
  by (simp add: make_table_emitted emitted_lines_def make_table_col_lengths_def
        getitem_def bindE_Inr len_def ascii_def header_lines_def wordsLine_border
        firstLine_border headerBotLine_border lastLine_border join_lines_def
        cells_def hbody_def pad2_def rjust_def ljust_def
        newline_def space_def numeral_3_eq_3)

text \<open>
  C2, amended. For every non-empty list of equal-length rows (labels absent, or present
  and matching), the string returned by \<open>make_table\<close> consists of between N+1 and N+4
  newline-joined lines, where N is the number of rows.
\<close>

theorem make_table_line_range:
  assumes "valid_input str rows labels"
  shows "\<exists>out. make_table str rows labels centered = Inr out \<and>
           length rows + 1 \<le> length (split newline out) \<and>
           length (split newline out) \<le> length rows + 4"
  using make_table_valid [OF assms, of centered] by auto

text \<open>The theorem at the one-cell table with a label.\<close>

theorem make_table_line_range_witness:
  "valid_input ascii [[''a'']] (Some [''X'']) \<and>
   (\<exists>out. make_table ascii [[''a'']] (Some [''X'']) True = Inr out \<and>
          length [[''a'']] + 1 \<le> length (split newline out) \<and>
          length (split newline out) \<le> length [[''a'']] + 4)"
  using make_table_line_range [of ascii "[[''a'']]" "Some [''X'']" True]
  by (simp add: valid_input_def rectangular_def single_line_def labels_match_def ascii_def newline_def)

subsection \<open>Padding\<close>

text \<open>
  C3 as stated, that an odd leftover always puts the extra space on the right, fails:
  \<open>ab\<close> in a column of width 3 is centred in 5 characters as two spaces, \<open>ab\<close>, one space.
\<close>

theorem paddedWord_centered_counterexample:
  "paddedWord (ascii ''ab'') 3 True 2 = Inr (ascii ''  ab '') \<and>
   paddedWord (ascii ''ab'') 3 True 2 \<noteq> Inr (ascii '' ab  '')"
  by (simp add: paddedWord_def center_def len_def ascii_def space_def numeral_2_eq_2)

text \<open>
  C3, amended. For every word and every target inner width (column width + 2) at least
  the word's length, \<open>paddedWord\<close> with \<open>centered = True\<close> returns the word between two runs
  of spaces that fill the target width; the runs are equal when the leftover is even, and
  when the leftover is odd the extra space is on the right if the target width is even and
  on the left if the target width is odd.
\<close>

theorem paddedWord_centered:
  assumes "len word \<le> max_length + 2"
  shows "\<exists>l r. paddedWord word max_length True 2
                  = Inr (replicate l space @ word @ replicate r space) \<and>
           int l + int r = max_length + 2 - len word \<and>
           (even (max_length + 2 - len word) \<longrightarrow> l = r) \<and>
           (odd (max_length + 2 - len word) \<and> even (max_length + 2) \<longrightarrow> r = l + 1) \<and>
           (odd (max_length + 2 - len word) \<and> odd (max_length + 2) \<longrightarrow> l = r + 1)"
  using center_shape [OF assms, of space] by (simp add: paddedWord_def)

text \<open>The theorem at the word \<open>ab\<close> and column width 3.\<close>

theorem paddedWord_centered_witness:
  "len (ascii ''ab'') \<le> 3 + 2 \<and>
   (\<exists>l r. paddedWord (ascii ''ab'') 3 True 2
             = Inr (replicate l space @ ascii ''ab'' @ replicate r space) \<and>
           int l + int r = 3 + 2 - len (ascii ''ab'') \<and>
           (even (3 + 2 - len (ascii ''ab'')) \<longrightarrow> l = r) \<and>
           (odd (3 + 2 - len (ascii ''ab'')) \<and> even (3 + 2 :: int) \<longrightarrow> r = l + 1) \<and>
           (odd (3 + 2 - len (ascii ''ab'')) \<and> odd (3 + 2 :: int) \<longrightarrow> l = r + 1))"
  using paddedWord_centered [of "ascii ''ab''" 3]
  by (simp add: len_def ascii_def)


text \<open>
  From \<open>2^53\<close> on the float quotient is rounded and the half the code uses is no longer
  \<open>extra_spaces div 2\<close>: \<open>int((2^53 + 3) / 2)\<close> is \<open>2^52 + 2\<close>, one more than
  \<open>(2^53 + 3) div 2\<close>.
\<close>

lemma int_half_rounded:
  "int_half (2 ^ 53 + 3) = Inr (2 ^ 52 + 2) \<and> (2 ^ 53 + 3) div 2 = (2 ^ 52 + 1 :: int)"
  by (simp add: int_half_def Let_def bit_length.simps)



subsection \<open>Column widths\<close>

text \<open>
  C5. For every non-empty rectangular \<open>rows\<close>, the width that \<open>make_table\<close> uses for column
  \<open>i\<close> is the maximum over all rows of the length of the rendering of the cell in column
  \<open>i\<close>, and, when a label list (of the common row length) is supplied, the maximum of that
  and the length of the rendering of label \<open>i\<close>.
\<close>

theorem make_table_col_lengths_max:
  assumes "rectangular rows"
    and "case labels of None \<Rightarrow> True | Some ls \<Rightarrow> length ls = length (hd rows)"
  shows "\<exists>cl. make_table_col_lengths str rows labels = Inr cl \<and>
           length cl = length (hd rows) \<and>
           (\<forall>i<length (hd rows).
              cl ! i = (case labels of
                          None \<Rightarrow> Max ((\<lambda>row. len (str (row ! i))) ` set rows)
                        | Some ls \<Rightarrow> max (Max ((\<lambda>row. len (str (row ! i))) ` set rows))
                                      (len (str (ls ! i)))))"
proof -
  have ne: "rows \<noteq> []" using assms(1) by (simp add: rectangular_def)
  have "make_table_col_lengths str rows labels = Inr (widths str rows labels)"
  proof (rule make_table_col_lengths_ok [OF ne])
    show "length (hd rows) \<le> length row" if "row \<in> set rows" for row
      using assms(1) that unfolding rectangular_def by fastforce
    show "length (hd rows) \<le> length ls" if "labels = Some ls" for ls
      using assms(2) that by simp
  qed
  moreover have "widths str rows labels ! i =
      (case labels of
         None \<Rightarrow> Max ((\<lambda>row. len (str (row ! i))) ` set rows)
       | Some ls \<Rightarrow> max (Max ((\<lambda>row. len (str (row ! i))) ` set rows)) (len (str (ls ! i))))"
    if "i < length (hd rows)" for i
    using that col_width_nonneg [OF ne, of str i]
    by (simp add: widths_def label_width_def col_width_def split: option.splits)
  ultimately show ?thesis
    by (simp add: length_widths)
qed

text \<open>The theorem at a two-by-two table whose second label is wider than its column.\<close>

theorem make_table_col_lengths_max_witness:
  "rectangular [[''a'', ''bb''], [''ccc'', ''d'']] \<and>
   (\<exists>cl. make_table_col_lengths ascii [[''a'', ''bb''], [''ccc'', ''d'']] (Some [''X'', ''YYYY'']) = Inr cl \<and>
         length cl = 2 \<and> cl ! 0 = 3 \<and> cl ! 1 = 4)"
  using make_table_col_lengths_max [of "[[''a'', ''bb''], [''ccc'', ''d'']]" "Some [''X'', ''YYYY'']" ascii]
  by (auto simp: rectangular_def ascii_def len_def numeral_2_eq_2 All_less_Suc)

text \<open>
  C6. For the rows \<open>[["a","bb"],["ccc","d"]]\<close> without labels and left-aligned,
  \<open>make_table\<close> computes the column widths \<open>[3, 2]\<close>; the first line of its result is the
  top border: the corner U+250C, five bars U+2500, the junction U+252C, four bars and the
  corner U+2510; and the second line is the first row: bar U+2502, \<open>" a   "\<close>, bar,
  \<open>" bb "\<close>, bar.
\<close>

theorem make_table_example:
  "make_table_col_lengths ascii [[''a'', ''bb''], [''ccc'', ''d'']] None = Inr [3, 2] \<and>
   map_sum id (take 2 \<circ> split newline)
     (make_table ascii [[''a'', ''bb''], [''ccc'', ''d'']] None False)
     = Inr [[9484] @ replicate 5 9472 @ [9516] @ replicate 4 9472 @ [9488],
            [9474] @ ascii '' a   '' @ [9474] @ ascii '' bb '' @ [9474]]"
  by (simp add: make_table_emitted emitted_lines_def make_table_col_lengths_def
        getitem_def bindE_Inr len_def ascii_def header_lines_def wordsLine_border
        firstLine_border headerBotLine_border lastLine_border join_lines_def
        cells_def hbody_def pad2_def rjust_def ljust_def
        newline_def space_def replicate_numeral)

subsection \<open>Lines\<close>

text \<open>
  C7. For every valid input (non-empty rectangular rows of single-line cells and, if
  supplied, labels of the common row length), all lines of the string returned by
  \<open>make_table\<close>, the borders, the header lines and the rows, have the same length: one
  more than the sum over the columns of the column width plus three (and zero when there
  is no column).
\<close>

theorem make_table_lines_equal_length:
  assumes "valid_input str rows labels"
  shows "\<exists>out cl. make_table_col_lengths str rows labels = Inr cl \<and>
           make_table str rows labels centered = Inr out \<and>
           (\<forall>l\<in>set (split newline out). length l = line_width 2 cl)"
  using make_table_valid [OF assms, of centered] valid_col_lengths [OF assms]
  by auto

text \<open>The theorem at a centred two-by-two table with labels.\<close>

theorem make_table_lines_equal_length_witness:
  "valid_input ascii [[''a'', ''bb''], [''ccc'', ''d'']] (Some [''X'', ''Y'']) \<and>
   (\<exists>out cl. make_table_col_lengths ascii [[''a'', ''bb''], [''ccc'', ''d'']] (Some [''X'', ''Y'']) = Inr cl \<and>
      make_table ascii [[''a'', ''bb''], [''ccc'', ''d'']] (Some [''X'', ''Y'']) True = Inr out \<and>
      (\<forall>l\<in>set (split newline out). length l = line_width 2 cl))"
  using make_table_lines_equal_length
    [of ascii "[[''a'', ''bb''], [''ccc'', ''d'']]" "Some [''X'', ''Y'']" True]
  by (simp add: valid_input_def rectangular_def single_line_def labels_match_def ascii_def newline_def)

text \<open>
  C8. For every valid input, the string returned by \<open>make_table\<close> is every emitted line
  above the bottom border followed by a newline character, and then the bottom border
  with nothing after it. No emitted line contains a newline, and with at least one column
  the bottom border is not empty, so the string does not end with a newline.
\<close>

theorem make_table_newlines:
  assumes "valid_input str rows labels"
  shows "\<exists>upper bottom.
           emitted_lines str rows labels centered = Inr (upper, bottom) \<and>
           make_table str rows labels centered
             = Inr (concat (map (\<lambda>l. l @ [newline]) upper) @ bottom) \<and>
           (\<forall>l\<in>set upper. newline \<notin> set l) \<and> newline \<notin> set bottom \<and>
           (hd rows \<noteq> [] \<longrightarrow> bottom \<noteq> [])"
proof -
  obtain upper bottom where e: "emitted_lines str rows labels centered = Inr (upper, bottom)"
    and u: "\<forall>l\<in>set upper. length l = line_width 2 (widths str rows labels) \<and> newline \<notin> set l"
    and b: "length bottom = line_width 2 (widths str rows labels)" "newline \<notin> set bottom"
    using emitted_lines_valid [OF assms, of centered] by blast
  have "make_table str rows labels centered
          = Inr (concat (map (\<lambda>l. l @ [newline]) upper) @ bottom)"
    by (simp add: make_table_emitted e join_lines_def)
  moreover have "bottom \<noteq> []" if "hd rows \<noteq> []"
  proof -
    have "widths str rows labels \<noteq> []"
      using that length_widths [of str rows labels] by auto
    from line_width_pos [OF this, of 2] b(1) show ?thesis by auto
  qed
  ultimately show ?thesis
    using e u b(2) by blast
qed

text \<open>The theorem at the one-cell table.\<close>

theorem make_table_newlines_witness:
  "valid_input ascii [[''a'']] None \<and>
   (\<exists>upper bottom.
      emitted_lines ascii [[''a'']] None False = Inr (upper, bottom) \<and>
      make_table ascii [[''a'']] None False
        = Inr (concat (map (\<lambda>l. l @ [newline]) upper) @ bottom) \<and>
      (\<forall>l\<in>set upper. newline \<notin> set l) \<and> newline \<notin> set bottom \<and> bottom \<noteq> [])"
  using make_table_newlines [of ascii "[[''a'']]" None False]
  by (simp add: valid_input_def rectangular_def single_line_def labels_match_def ascii_def newline_def)

subsection \<open>Edge cases\<close>

text \<open>
  C9. With an empty list of column widths, \<open>firstLine\<close> and \<open>wordsLine\<close> each return the
  empty string, for any border dictionary. When \<open>rows\<close> is non-empty and its first row has
  no cell, \<open>make_table\<close> still returns a string that splits into as many lines as with
  columns, (number of rows) + 2 without a header and (number of rows) + 4 with one, all of
  them empty.
\<close>

theorem make_table_zero_columns:
  assumes "rows \<noteq> []" and "hd rows = []"
  shows "firstLine [] b es = Inr [] \<and> wordsLine [] b ws centered es = Inr [] \<and>
         (\<exists>out. make_table str rows labels centered' = Inr out \<and>
                split newline out
                  = replicate (length rows + (if has_header labels then 4 else 2)) [])"
proof -
  let ?n = "length rows + (if has_header labels then 3 else 1)"
  have "split newline (join_lines (replicate ?n [], [])) = replicate ?n [] @ [[]]"
    by (rule join_split) simp_all
  also have "\<dots> = replicate (Suc ?n) []"
    by (simp add: replicate_append_same)
  finally have "split newline (join_lines (replicate ?n [], []))
      = replicate (length rows + (if has_header labels then 4 else 2)) []"
    by (simp del: replicate_Suc split: if_splits)
  then show ?thesis
    by (simp add: firstLine_Nil wordsLine_Nil make_table_emitted
          emitted_lines_zero_columns [OF assms] del: replicate_Suc)
qed

text \<open>The theorem at two empty rows.\<close>

theorem make_table_zero_columns_witness:
  "[[], []] \<noteq> ([] :: string list list) \<and> hd [[], []] = ([] :: string list) \<and>
   firstLine [] border 2 = Inr [] \<and> wordsLine [] border [] False 2 = Inr [] \<and>
   (\<exists>out. make_table ascii [[], []] None False = Inr out \<and>
          split newline out = [[], [], [], []])"
  using make_table_zero_columns [of "[[], []]" border 2 "[]" False ascii None False]
  by (simp add: has_header_def)

text \<open>
  C10. For every non-empty \<open>rows\<close> whose first row has at least one cell, \<open>make_table\<close>
  with the empty list as labels fails with \<open>IndexError\<close>, raised while the column widths
  are computed, before any line is drawn; the test for non-empty labels in front of the
  header is never reached.
\<close>

theorem make_table_empty_labels:
  assumes "rows \<noteq> []" and "hd rows \<noteq> []"
  shows "make_table_col_lengths str rows (Some []) = Inl IndexError \<and>
         make_table str rows (Some []) centered = Inl IndexError"
  using col_lengths_empty_labels [OF assms, of str]
  by (simp add: make_table_def bindE_Inl)

text \<open>The theorem at a two-by-two table.\<close>

theorem make_table_empty_labels_witness:
  "[[''a'', ''bb''], [''ccc'', ''d'']] \<noteq> [] \<and> hd [[''a'', ''bb''], [''ccc'', ''d'']] \<noteq> [] \<and>
   make_table_col_lengths ascii [[''a'', ''bb''], [''ccc'', ''d'']] (Some []) = Inl IndexError \<and>
   make_table ascii [[''a'', ''bb''], [''ccc'', ''d'']] (Some []) False = Inl IndexError"
  using make_table_empty_labels [of "[[''a'', ''bb''], [''ccc'', ''d'']]" ascii False]
  by simp

end
